theory Spec2Isabelle
  imports Complex_Main
begin

section \<open>The world the fixtures run in\<close>

text \<open>
  The authentication fixture (fixtures/auth.fixture.ts) talks to three things: the Node
  file system (\<open>fs.existsSync\<close>, \<open>fs.statSync\<close>, \<open>fs.unlinkSync\<close>, \<open>fs.mkdirSync\<close>),
  the clock (\<open>Date.now()\<close>) and the Playwright browser. The model threads a \<open>world\<close>
  through every call. What the surroundings decide (which call fails, what the test body
  does, the process environment) is read from an \<open>env\<close> that stays fixed during a run.

  Times are milliseconds. \<open>Date.now()\<close> is an integer; \<open>stats.mtimeMs\<close> may carry a
  fraction, so it is a rational. Steps of the model do not advance the clock: a later
  instant is the same world with another \<open>clock\<close>.
\<close>

type_synonym path = string

text \<open>
  What a path names: a regular file with its modification time and content, or a
  directory with its modification time.
\<close>

datatype node = File rat string | Directory rat

fun node_mtimeMs :: "node \<Rightarrow> rat" where
  "node_mtimeMs (File m c) = m"
| "node_mtimeMs (Directory m) = m"

fun is_file :: "node option \<Rightarrow> bool" where
  "is_file (Some (File m c)) = True"
| "is_file (Some (Directory m)) = False"
| "is_file None = False"

datatype load_state = Load | DomContentLoaded | NetworkIdle

datatype ctx = SetupContext | AuthContext

datatype locator = Locator string | GetByText string

datatype test_outcome = Passed | Failed | Aborted

text \<open>The calls into Playwright that the fixtures and page objects await.\<close>

datatype action =
    NewContext ctx "path option"
  | NewPage ctx
  | Goto string
  | WaitForLoadState load_state
  | Fill locator string
  | Click locator
  | StorageState path
  | Use test_outcome
  | Close ctx

datatype fs_op = ExistsOp | StatOp | UnlinkOp | MkdirOp

datatype js_error =
    FsError fs_op path
  | PlaywrightError action
  | Error string

text \<open>
  The environment of a run: \<open>process.env\<close>; the file system calls that hit an I/O error
  (by call and path); the Playwright calls that reject; the storage state the browser
  would serialise; and what the test body does with the value it is handed.
\<close>

record env =
  process_env :: "string \<Rightarrow> string option"
  fs_fault :: "fs_op \<Rightarrow> path \<Rightarrow> bool"
  pw_throws :: "action \<Rightarrow> bool"
  captured :: string
  test_body :: test_outcome

record world =
  clock :: int
  nodes :: "path \<Rightarrow> node option"
  trace :: "action list"

type_synonym 'a io = "world \<Rightarrow> (js_error + 'a) \<times> world"

subsection \<open>Constants of the fixture\<close>

text \<open>
  \<open>STORAGE_STATE_PATH = path.join(__dirname, '..', '.auth', 'user.json')\<close>: the file
  \<open>.auth/user.json\<close> of the project, written here relative to the project root;
  \<open>path.dirname\<close> of it is \<open>.auth\<close>.
\<close>

definition STORAGE_STATE_PATH :: path where
  "STORAGE_STATE_PATH = ''.auth/user.json''"

definition authDir :: path where
  "authDir = ''.auth''"

definition AUTH_STATE_MAX_AGE_MS :: int where
  "AUTH_STATE_MAX_AGE_MS = 60 * 60 * 1000"

subsection \<open>Node's file system calls\<close>

text \<open>
  \<open>fs.existsSync\<close> never throws: an error while probing the path makes it answer
  \<open>false\<close>. The other calls throw.
\<close>

definition Date_now :: "world \<Rightarrow> int" where
  "Date_now w = clock w"

definition existsSync :: "env \<Rightarrow> world \<Rightarrow> path \<Rightarrow> bool" where
  "existsSync env w p = (\<not> fs_fault env ExistsOp p \<and> nodes w p \<noteq> None)"

definition statSync :: "env \<Rightarrow> world \<Rightarrow> path \<Rightarrow> js_error + rat" where
  "statSync env w p =
     (if fs_fault env StatOp p then Inl (FsError StatOp p)
      else case nodes w p of
             None \<Rightarrow> Inl (FsError StatOp p)
           | Some n \<Rightarrow> Inr (node_mtimeMs n))"

definition unlinkSync :: "env \<Rightarrow> path \<Rightarrow> unit io" where
  "unlinkSync env p w =
     (if fs_fault env UnlinkOp p then (Inl (FsError UnlinkOp p), w)
      else if is_file (nodes w p) then (Inr (), w\<lparr>nodes := (nodes w)(p := None)\<rparr>)
      else (Inl (FsError UnlinkOp p), w))"

definition mkdirSync :: "env \<Rightarrow> path \<Rightarrow> unit io" where
  "mkdirSync env p w =
     (if fs_fault env MkdirOp p then (Inl (FsError MkdirOp p), w)
      else case nodes w p of
             None \<Rightarrow> (Inr (), w\<lparr>nodes := (nodes w)(p \<mapsto> Directory (of_int (clock w)))\<rparr>)
           | Some (Directory m) \<Rightarrow> (Inr (), w)
           | Some (File m c) \<Rightarrow> (Inl (FsError MkdirOp p), w))"

subsection \<open>isAuthStateStale and clearAuthState\<close>

text \<open>The body of the \<open>try\<close> of \<open>isAuthStateStale\<close>, then the function with its \<open>catch\<close>.\<close>

definition isAuthStateStale_try :: "env \<Rightarrow> world \<Rightarrow> js_error + bool" where
  "isAuthStateStale_try env w =
     (if \<not> existsSync env w STORAGE_STATE_PATH then Inr True
      else case statSync env w STORAGE_STATE_PATH of
             Inl e \<Rightarrow> Inl e
           | Inr mtime \<Rightarrow>
               (let ageMs = of_int (Date_now w) - mtime
                in Inr (ageMs > of_int AUTH_STATE_MAX_AGE_MS)))"

definition isAuthStateStale :: "env \<Rightarrow> world \<Rightarrow> bool" where
  "isAuthStateStale env w =
     (case isAuthStateStale_try env w of Inl e \<Rightarrow> True | Inr b \<Rightarrow> b)"

definition clearAuthState_try :: "env \<Rightarrow> unit io" where
  "clearAuthState_try env w =
     (if existsSync env w STORAGE_STATE_PATH then unlinkSync env STORAGE_STATE_PATH w
      else (Inr (), w))"

definition clearAuthState :: "env \<Rightarrow> world \<Rightarrow> world" where
  "clearAuthState env w = snd (clearAuthState_try env w)"

subsection \<open>Sequencing, exceptions and \<open>finally\<close>\<close>

text \<open>
  An awaited call either throws, and the rest of the function is skipped, or hands the
  world on. In \<open>try { body } finally { fin }\<close> the block \<open>fin\<close> runs on both exits of
  \<open>body\<close>; an error thrown by \<open>fin\<close> replaces the outcome of \<open>body\<close>.
\<close>

definition andThen :: "unit io \<Rightarrow> 'a io \<Rightarrow> 'a io" where
  "andThen m k w = (case m w of (Inl e, w') \<Rightarrow> (Inl e, w') | (Inr u, w') \<Rightarrow> k w')"

definition try_finally :: "'a io \<Rightarrow> unit io \<Rightarrow> 'a io" where
  "try_finally body fin w =
     (case body w of
        (r, w') \<Rightarrow> (case fin w' of (Inl e, w'') \<Rightarrow> (Inl e, w'') | (Inr u, w'') \<Rightarrow> (r, w'')))"

subsection \<open>Playwright calls\<close>

text \<open>
  A Playwright call is logged when it is attempted and then rejects or resolves as the
  environment says. \<open>browser.newContext({ storageState: p })\<close> reads the file at \<open>p\<close> and
  rejects without one; \<open>context.storageState({ path: p })\<close> writes the captured state
  over whatever file is at \<open>p\<close>, stamped with the present time.
\<close>

definition pw :: "env \<Rightarrow> action \<Rightarrow> unit io" where
  "pw env a w =
     (let w' = w\<lparr>trace := trace w @ [a]\<rparr>
      in if pw_throws env a then (Inl (PlaywrightError a), w') else (Inr (), w'))"

definition browser_newContext :: "env \<Rightarrow> ctx \<Rightarrow> path option \<Rightarrow> unit io" where
  "browser_newContext env c storageState w =
     (let a = NewContext c storageState; w' = w\<lparr>trace := trace w @ [a]\<rparr>
      in if pw_throws env a then (Inl (PlaywrightError a), w')
         else case storageState of
                None \<Rightarrow> (Inr (), w')
              | Some p \<Rightarrow> if is_file (nodes w p) then (Inr (), w')
                          else (Inl (PlaywrightError a), w'))"

definition context_storageState :: "env \<Rightarrow> path \<Rightarrow> unit io" where
  "context_storageState env p w =
     (let a = StorageState p; w' = w\<lparr>trace := trace w @ [a]\<rparr>
      in if pw_throws env a then (Inl (PlaywrightError a), w')
         else case nodes w p of
                Some (Directory m) \<Rightarrow> (Inl (PlaywrightError a), w')
              | _ \<Rightarrow> (Inr (), w'\<lparr>nodes := (nodes w)(p \<mapsto> File (of_int (clock w)) (captured env))\<rparr>))"

text \<open>
  \<open>use\<close> is the callback the Playwright test runner passes to a fixture. By the
  runner's contract \<open>await use(value)\<close> hands the value to the test body and resolves
  when the runner tears the fixture down, whether the body passed, failed or was aborted:
  a failure of the body is reported by the runner and is not thrown into the fixture. The
  body's outcome is kept in the log.
\<close>

definition use :: "env \<Rightarrow> unit io" where
  "use env w = (Inr (), w\<lparr>trace := trace w @ [Use (test_body env)]\<rparr>)"

subsection \<open>LoginPage (pages/login.page.ts) and BasePage (pages/base.page.ts)\<close>

definition LoginPage_url :: string where
  "LoginPage_url = ''https://www.saucedemo.com/''"

definition inputLogin :: locator where
  "inputLogin = Locator ''[data-test=\"username\"]''"

definition inputPassword :: locator where
  "inputPassword = Locator ''[data-test=\"password\"]''"

definition btnLogin :: locator where
  "btnLogin = Locator ''[data-test=\"login-button\"]''"

definition swagLabs :: locator where
  "swagLabs = GetByText ''Swag Labs''"

text \<open>\<open>process.env.X || ''\<close>: an unset or empty variable reads as the empty string.\<close>

definition or_empty :: "string option \<Rightarrow> string" where
  "or_empty v = (case v of None \<Rightarrow> [] | Some s \<Rightarrow> if s = [] then [] else s)"

definition BasePage_navigate :: "env \<Rightarrow> string \<Rightarrow> unit io" where
  "BasePage_navigate env p = pw env (Goto p)"

definition BasePage_waitForPageLoad :: "env \<Rightarrow> load_state \<Rightarrow> unit io" where
  "BasePage_waitForPageLoad env st = pw env (WaitForLoadState st)"

definition navigateToPage :: "env \<Rightarrow> unit io" where
  "navigateToPage env =
     andThen (BasePage_navigate env LoginPage_url)
             (BasePage_waitForPageLoad env DomContentLoaded)"

definition loginWithCredentials :: "env \<Rightarrow> unit io" where
  "loginWithCredentials env =
     (let username = or_empty (process_env env ''TEST_USER_ADMIN_USERNAME'');
          password = or_empty (process_env env ''TEST_USER_ADMIN_PASSWORD'')
      in if username = [] \<or> password = []
         then (\<lambda>w. (Inl (Error ''Credentials not found in environment variables''), w))
         else andThen (pw env (Fill inputPassword password))
             (andThen (pw env (Click inputLogin))
             (andThen (pw env (Click btnLogin))
             (andThen (pw env (Click swagLabs))
                      (pw env (WaitForLoadState NetworkIdle))))))"

subsection \<open>setupAuthState and the fixtures\<close>

definition ensure_authDir :: "env \<Rightarrow> unit io" where
  "ensure_authDir env w =
     (if \<not> existsSync env w authDir then mkdirSync env authDir w else (Inr (), w))"

definition setupAuthState :: "env \<Rightarrow> unit io" where
  "setupAuthState env =
     andThen (navigateToPage env)
    (andThen (pw env (Fill inputLogin (or_empty (process_env env ''TEST_USER_ADMIN_USERNAME''))))
    (andThen (pw env (Fill inputPassword (or_empty (process_env env ''TEST_USER_ADMIN_PASSWORD''))))
    (andThen (pw env (Click btnLogin))
    (andThen (pw env (WaitForLoadState NetworkIdle))
    (andThen (ensure_authDir env)
             (context_storageState env STORAGE_STATE_PATH))))))"

text \<open>
  Both fixtures open with the same block (lines 368-378 and 409-419 of the fixture
  file): regenerate the state file when it is missing or stale. It is named here once.
\<close>

definition ensureFresh :: "env \<Rightarrow> unit io" where
  "ensureFresh env w =
     (if \<not> existsSync env w STORAGE_STATE_PATH \<or> isAuthStateStale env w
      then andThen (browser_newContext env SetupContext None)
          (andThen (pw env (NewPage SetupContext))
                   (try_finally (setupAuthState env) (pw env (Close SetupContext))))
             (clearAuthState env w)
      else (Inr (), w))"

definition page_fixture :: "env \<Rightarrow> unit io" where
  "page_fixture env =
     andThen (ensureFresh env)
    (andThen (browser_newContext env AuthContext (Some STORAGE_STATE_PATH))
    (andThen (pw env (NewPage AuthContext))
    (andThen (use env)
             (pw env (Close AuthContext)))))"

definition authenticatedContext_fixture :: "env \<Rightarrow> unit io" where
  "authenticatedContext_fixture env =
     andThen (ensureFresh env)
    (andThen (browser_newContext env AuthContext (Some STORAGE_STATE_PATH))
    (andThen (use env)
             (pw env (Close AuthContext))))"

text \<open>
  The login procedure is entered once for every \<open>page.goto\<close> of the login page that the
  log holds; the events a run adds are those after the ones it started with.
\<close>

definition login_invocations :: "world \<Rightarrow> nat" where
  "login_invocations w = length (filter (\<lambda>a. a = Goto LoginPage_url) (trace w))"

definition new_events :: "world \<Rightarrow> world \<Rightarrow> action list" where
  "new_events w w' = drop (length (trace w)) (trace w')"

subsection \<open>Names for parts of a run\<close>

text \<open>
  The proofs speak of the awaited calls of \<open>setupAuthState\<close> before it persists anything
  (\<open>login_steps\<close>), of running such a list in order (\<open>pw_all\<close>), of the calls that get
  attempted when one of them may reject (\<open>attempted\<close>), of the last two statements of
  \<open>setupAuthState\<close> (\<open>persist\<close>), and of the events the regeneration block
  (\<open>setup_events\<close>) and the rest of a fixture (\<open>auth_events\<close>) add to the log.
\<close>

definition login_steps :: "env \<Rightarrow> action list" where
  "login_steps env =
     [Goto LoginPage_url, WaitForLoadState DomContentLoaded,
      Fill inputLogin (or_empty (process_env env ''TEST_USER_ADMIN_USERNAME'')),
      Fill inputPassword (or_empty (process_env env ''TEST_USER_ADMIN_PASSWORD'')),
      Click btnLogin, WaitForLoadState NetworkIdle]"

fun is_dir :: "node option \<Rightarrow> bool" where
  "is_dir (Some (Directory m)) = True"
| "is_dir (Some (File m c)) = False"
| "is_dir None = False"

fun pw_all :: "env \<Rightarrow> action list \<Rightarrow> unit io" where
  "pw_all env [] = (\<lambda>w. (Inr (), w))"
| "pw_all env (a # as) = andThen (pw env a) (pw_all env as)"

definition attempted :: "env \<Rightarrow> action list \<Rightarrow> action list" where
  "attempted env as =
     (case find (pw_throws env) as of
        None \<Rightarrow> as
      | Some a \<Rightarrow> takeWhile (\<lambda>a. \<not> pw_throws env a) as @ [a])"

definition persist :: "env \<Rightarrow> unit io" where
  "persist env = andThen (ensure_authDir env) (context_storageState env STORAGE_STATE_PATH)"

definition setup_events :: "env \<Rightarrow> world \<Rightarrow> action list" where
  "setup_events env w =
     (if pw_throws env (NewContext SetupContext None) then [NewContext SetupContext None]
      else if pw_throws env (NewPage SetupContext)
      then [NewContext SetupContext None, NewPage SetupContext]
      else [NewContext SetupContext None, NewPage SetupContext] @
           attempted env (login_steps env) @
           (if find (pw_throws env) (login_steps env) = None \<and> fst (ensure_authDir env w) = Inr ()
            then [StorageState STORAGE_STATE_PATH] else []) @
           [Close SetupContext])"

definition auth_events :: "env \<Rightarrow> bool \<Rightarrow> (js_error + unit) \<times> world \<Rightarrow> action list" where
  "auth_events env with_page rw =
     (let nc = NewContext AuthContext (Some STORAGE_STATE_PATH)
      in if fst rw \<noteq> Inr () then []
         else if pw_throws env nc \<or> \<not> is_file (nodes (snd rw) STORAGE_STATE_PATH) then [nc]
         else if with_page \<and> pw_throws env (NewPage AuthContext) then [nc, NewPage AuthContext]
         else nc # (if with_page then [NewPage AuthContext] else []) @
              [Use (test_body env), Close AuthContext])"

section \<open>The retry helpers (utils/helpers.ts)\<close>

text \<open>
  \<open>fillWithRetry\<close> and \<open>retryUntil\<close> call back into the page, or into the action and
  condition they are given. A script says how the i-th call of each ends; the functions
  return their outcome and the calls they made, in order. The loop counter \<open>i\<close> starts at
  0 and counts up, so it is a natural number (a JavaScript counter stops growing at
  \<open>2^53\<close>, which no run reaches); \<open>retries\<close> and \<open>maxRetries\<close> are integers of either
  sign, and an omitted argument takes the default of the source.

  The \<open>Error\<close> that \<open>retryUntil\<close> creates itself is kept apart from whatever the action
  or the condition throws.
\<close>

datatype page_call = PageFill string string nat | PageInputValue string | PageWaitForTimeout nat

record page_script =
  fill_rejects :: "nat \<Rightarrow> js_error option"
  inputValue_result :: "nat \<Rightarrow> js_error + string"
  waitForTimeout_rejects :: "nat \<Rightarrow> js_error option"

datatype try_exit = Returned | Caught js_error | FellThrough

definition fillWithRetry_try ::
  "page_script \<Rightarrow> string \<Rightarrow> string \<Rightarrow> nat \<Rightarrow> try_exit \<times> page_call list" where
  "fillWithRetry_try pg selector v i =
     (case fill_rejects pg i of
        Some error \<Rightarrow> (Caught error, [PageFill selector v 5000])
      | None \<Rightarrow>
          (case inputValue_result pg i of
             Inl error \<Rightarrow> (Caught error, [PageFill selector v 5000, PageInputValue selector])
           | Inr currentValue \<Rightarrow>
               (if currentValue = v then Returned else FellThrough,
                [PageFill selector v 5000, PageInputValue selector])))"

function fillWithRetry_loop ::
  "page_script \<Rightarrow> string \<Rightarrow> string \<Rightarrow> int \<Rightarrow> nat \<Rightarrow> page_call list
     \<Rightarrow> (js_error + unit) \<times> page_call list" where
  "fillWithRetry_loop pg selector v retries i hist =
     (if int i < retries then
        (let (how, calls) = fillWithRetry_try pg selector v i in
         case how of
           Returned \<Rightarrow> (Inr (), hist @ calls)
         | FellThrough \<Rightarrow> fillWithRetry_loop pg selector v retries (Suc i) (hist @ calls)
         | Caught error \<Rightarrow>
             if int i = retries - 1 then (Inl error, hist @ calls)
             else (case waitForTimeout_rejects pg i of
                     Some e \<Rightarrow> (Inl e, hist @ calls @ [PageWaitForTimeout 1000])
                   | None \<Rightarrow> fillWithRetry_loop pg selector v retries (Suc i)
                               (hist @ calls @ [PageWaitForTimeout 1000])))
      else (Inr (), hist))"
  by pat_completeness auto
termination
  by (relation "measure (\<lambda>(pg, selector, v, retries, i, hist). nat (retries - int i))") auto

definition fillWithRetry ::
  "page_script \<Rightarrow> string \<Rightarrow> string \<Rightarrow> int option \<Rightarrow> (js_error + unit) \<times> page_call list" where
  "fillWithRetry pg selector v retries =
     fillWithRetry_loop pg selector v (case retries of None \<Rightarrow> 3 | Some r \<Rightarrow> r) 0 []"

declare fillWithRetry_loop.simps [simp del]

datatype retry_call = ActionCall | ConditionCall | Delay int

datatype rejection = FromAction js_error | FromCondition js_error | ConditionNotMet string

text \<open>
  The template literal of \<open>retryUntil\<close> renders \<open>maxRetries\<close> as JavaScript renders a
  number. That rendering belongs to the language, not to the repository, so a run takes
  it as given (\<open>number_toString\<close>) and nothing is assumed about it.
\<close>

record retry_script =
  action_rejects :: "nat \<Rightarrow> js_error option"
  condition_result :: "nat \<Rightarrow> js_error + bool"
  number_toString :: "int \<Rightarrow> string"

text \<open>
  \<open>show_int\<close> writes an integer in decimal. JavaScript prints an integer that way as
  long as its magnitude is at most \<open>2^53 - 1\<close>; beyond, it rounds the digits, and from
  \<open>10^21\<close> it prints an exponent. \<open>show_int\<close> is used for the sample runs only, on small
  numbers. \<open>digit_char\<close> is only applied to numbers below ten.
\<close>

definition digit_char :: "nat \<Rightarrow> char" where
  "digit_char d = ''0123456789'' ! d"

function show_nat :: "nat \<Rightarrow> string" where
  "show_nat n = (if n < 10 then [digit_char n] else show_nat (n div 10) @ [digit_char (n mod 10)])"
  by pat_completeness auto
termination
  by (relation "measure (\<lambda>n. n)") auto

declare show_nat.simps [simp del]

definition show_int :: "int \<Rightarrow> string" where
  "show_int k = (if k < 0 then CHR ''-'' # show_nat (nat (- k)) else show_nat (nat k))"

definition not_met_message :: "retry_script \<Rightarrow> int \<Rightarrow> string" where
  "not_met_message sc maxRetries =
     ''Condition not met after '' @ number_toString sc maxRetries @ '' retries''"

function retryUntil_loop ::
  "retry_script \<Rightarrow> int \<Rightarrow> int \<Rightarrow> nat \<Rightarrow> retry_call list \<Rightarrow> (rejection + unit) \<times> retry_call list" where
  "retryUntil_loop sc maxRetries retryDelay i hist =
     (if int i < maxRetries then
        (case action_rejects sc i of
           Some e \<Rightarrow> (Inl (FromAction e), hist @ [ActionCall])
         | None \<Rightarrow>
             (case condition_result sc i of
                Inl e \<Rightarrow> (Inl (FromCondition e), hist @ [ActionCall, ConditionCall])
              | Inr met \<Rightarrow>
                  if met then (Inr (), hist @ [ActionCall, ConditionCall])
                  else retryUntil_loop sc maxRetries retryDelay (Suc i)
                         (hist @ [ActionCall, ConditionCall] @
                          (if int i < maxRetries - 1 then [Delay retryDelay] else []))))
      else (Inl (ConditionNotMet (not_met_message sc maxRetries)), hist))"
  by pat_completeness auto
termination
  by (relation "measure (\<lambda>(sc, maxRetries, retryDelay, i, hist). nat (maxRetries - int i))") auto

definition retryUntil ::
  "retry_script \<Rightarrow> int option \<Rightarrow> int option \<Rightarrow> (rejection + unit) \<times> retry_call list" where
  "retryUntil sc maxRetries retryDelay =
     retryUntil_loop sc (case maxRetries of None \<Rightarrow> 5 | Some m \<Rightarrow> m)
       (case retryDelay of None \<Rightarrow> 1000 | Some d \<Rightarrow> d) 0 []"

text \<open>
  For the proofs: what one unmet attempt adds to the calls, and when attempt \<open>i\<close> is
  unmet (its action resolved and its condition answered \<open>false\<close>).
\<close>

definition attempt_log :: "int \<Rightarrow> int \<Rightarrow> nat \<Rightarrow> retry_call list" where
  "attempt_log maxRetries retryDelay i =
     [ActionCall, ConditionCall] @ (if int i < maxRetries - 1 then [Delay retryDelay] else [])"

definition unmet :: "retry_script \<Rightarrow> nat \<Rightarrow> bool" where
  "unmet sc i = (action_rejects sc i = None \<and> condition_result sc i = Inr False)"

declare retryUntil_loop.simps [simp del]

section \<open>Sample runs\<close>

text \<open>
  The run in which nothing fails, runs in which one call rejects, and two worlds to
  evaluate on.
\<close>

definition calm :: env where
  "calm = \<lparr>process_env = (\<lambda>k. None), fs_fault = (\<lambda>f p. False), pw_throws = (\<lambda>a. False),
           captured = ''{}'', test_body = Passed\<rparr>"

definition click_rejects :: env where
  "click_rejects = calm\<lparr>pw_throws := (\<lambda>a. a = Click btnLogin)\<rparr>"

definition newPage_rejects :: "ctx \<Rightarrow> env" where
  "newPage_rejects c = calm\<lparr>pw_throws := (\<lambda>a. a = NewPage c)\<rparr>"

definition blank :: world where
  "blank = \<lparr>clock = 5000000, nodes = (\<lambda>p. None), trace = []\<rparr>"

definition written_at :: "rat \<Rightarrow> world" where
  "written_at t0 = \<lparr>clock = 5000000,
                    nodes = (\<lambda>p. None)(STORAGE_STATE_PATH \<mapsto> File t0 ''{}''), trace = []\<rparr>"

text \<open>
  A page whose field stays empty whatever is filled in, and a condition that first holds
  at attempt \<open>k\<close>.
\<close>

definition never_set :: page_script where
  "never_set = \<lparr>fill_rejects = (\<lambda>i. None), inputValue_result = (\<lambda>i. Inr ''''),
                waitForTimeout_rejects = (\<lambda>i. None)\<rparr>"

definition met_at :: "nat \<Rightarrow> retry_script" where
  "met_at k = \<lparr>action_rejects = (\<lambda>i. None), condition_result = (\<lambda>i. Inr (i = k)),
              number_toString = show_int\<rparr>"

section \<open>The staleness check\<close>

lemma isAuthStateStale_unfold:
  "isAuthStateStale env w =
     (fs_fault env ExistsOp STORAGE_STATE_PATH \<or> fs_fault env StatOp STORAGE_STATE_PATH \<or>
      (case nodes w STORAGE_STATE_PATH of
         None \<Rightarrow> True
       | Some n \<Rightarrow> of_int (clock w) - node_mtimeMs n > of_int AUTH_STATE_MAX_AGE_MS))"
  by (simp add: isAuthStateStale_def isAuthStateStale_try_def existsSync_def statSync_def
      Date_now_def split: option.split)

text \<open>
  C1. \<open>isAuthStateStale\<close> never throws: an error inside its \<open>try\<close> (a failed probe of the
  path, a failed \<open>statSync\<close>) is answered with \<open>true\<close>. Without such an error it answers
  \<open>true\<close> exactly when nothing exists at the state path or
  \<open>Date.now() - mtimeMs > AUTH_STATE_MAX_AGE_MS\<close>. For a state written at \<open>t0\<close> the answer
  at time \<open>t\<close> is \<open>true\<close> exactly when \<open>t > t0 + AUTH_STATE_MAX_AGE_MS\<close>: an age of exactly
  the maximum is still fresh.
\<close>

theorem isAuthStateStale_spec:
  "(\<forall>e. isAuthStateStale_try env w = Inl e \<longrightarrow> isAuthStateStale env w)
   \<and> (fs_fault env ExistsOp STORAGE_STATE_PATH \<or> fs_fault env StatOp STORAGE_STATE_PATH
        \<longrightarrow> isAuthStateStale env w)
   \<and> (\<not> fs_fault env ExistsOp STORAGE_STATE_PATH \<and> \<not> fs_fault env StatOp STORAGE_STATE_PATH
        \<longrightarrow> (isAuthStateStale env w \<longleftrightarrow>
               nodes w STORAGE_STATE_PATH = None \<or>
               (\<exists>n. nodes w STORAGE_STATE_PATH = Some n \<and>
                    of_int (Date_now w) - node_mtimeMs n > of_int AUTH_STATE_MAX_AGE_MS)))
   \<and> (\<not> fs_fault env ExistsOp STORAGE_STATE_PATH \<and> \<not> fs_fault env StatOp STORAGE_STATE_PATH
        \<and> nodes w STORAGE_STATE_PATH = Some (File t0 c)
        \<longrightarrow> (\<forall>t. isAuthStateStale env (w\<lparr>clock := t\<rparr>) \<longleftrightarrow>
                   of_int t > t0 + of_int AUTH_STATE_MAX_AGE_MS))"
proof (intro conjI allI impI)
  fix e assume "isAuthStateStale_try env w = Inl e"
  then show "isAuthStateStale env w"
    by (simp add: isAuthStateStale_def)
next
  assume "fs_fault env ExistsOp STORAGE_STATE_PATH \<or> fs_fault env StatOp STORAGE_STATE_PATH"
  then show "isAuthStateStale env w"
    by (auto simp: isAuthStateStale_unfold)
next
  assume "\<not> fs_fault env ExistsOp STORAGE_STATE_PATH \<and> \<not> fs_fault env StatOp STORAGE_STATE_PATH"
  then show "isAuthStateStale env w \<longleftrightarrow>
      nodes w STORAGE_STATE_PATH = None \<or>
      (\<exists>n. nodes w STORAGE_STATE_PATH = Some n \<and>
           of_int (Date_now w) - node_mtimeMs n > of_int AUTH_STATE_MAX_AGE_MS)"
    by (cases "nodes w STORAGE_STATE_PATH") (simp_all add: isAuthStateStale_unfold Date_now_def)
next
  fix t
  assume "\<not> fs_fault env ExistsOp STORAGE_STATE_PATH \<and> \<not> fs_fault env StatOp STORAGE_STATE_PATH
      \<and> nodes w STORAGE_STATE_PATH = Some (File t0 c)"
  then show "isAuthStateStale env (w\<lparr>clock := t\<rparr>) \<longleftrightarrow> of_int t > t0 + of_int AUTH_STATE_MAX_AGE_MS"
    by (auto simp: isAuthStateStale_unfold)
qed

theorem isAuthStateStale_spec_witness:
  "\<not> isAuthStateStale calm (written_at 1400000)
   \<and> \<not> isAuthStateStale calm ((written_at 1400000)\<lparr>clock := 1400000\<rparr>)
   \<and> isAuthStateStale calm ((written_at 1400000)\<lparr>clock := 5000001\<rparr>)
   \<and> isAuthStateStale calm blank
   \<and> isAuthStateStale (calm\<lparr>fs_fault := \<lambda>f p. f = StatOp\<rparr>) (written_at 1400000)"
  using isAuthStateStale_spec [of calm "written_at 1400000" 1400000 "''{}''"]
    isAuthStateStale_spec [of calm blank]
    isAuthStateStale_spec [of "calm\<lparr>fs_fault := \<lambda>f p. f = StatOp\<rparr>" "written_at 1400000"]
  by (simp add: calm_def blank_def written_at_def AUTH_STATE_MAX_AGE_MS_def Date_now_def)

section \<open>Invalidation\<close>

lemma clearAuthState_unfold:
  "clearAuthState env w =
     (if \<not> fs_fault env ExistsOp STORAGE_STATE_PATH \<and> \<not> fs_fault env UnlinkOp STORAGE_STATE_PATH
         \<and> is_file (nodes w STORAGE_STATE_PATH)
      then w\<lparr>nodes := (nodes w)(STORAGE_STATE_PATH := None)\<rparr> else w)"
  by (simp add: clearAuthState_def clearAuthState_try_def existsSync_def unlinkSync_def)

text \<open>
  C7. \<open>clearAuthState\<close> always returns and lets no error out: when its \<open>try\<close> throws,
  the world is as before. Run twice it does what one run does. When neither the probe
  nor the unlink fails, no file is left at the state path after one run or after two. It
  touches nothing but that path.
\<close>

theorem clearAuthState_idempotent:
  "clearAuthState env (clearAuthState env w) = clearAuthState env w
   \<and> (\<forall>e. fst (clearAuthState_try env w) = Inl e \<longrightarrow> clearAuthState env w = w)
   \<and> (\<not> fs_fault env ExistsOp STORAGE_STATE_PATH \<and> \<not> fs_fault env UnlinkOp STORAGE_STATE_PATH
        \<longrightarrow> \<not> is_file (nodes (clearAuthState env w) STORAGE_STATE_PATH)
            \<and> \<not> is_file (nodes (clearAuthState env (clearAuthState env w)) STORAGE_STATE_PATH))
   \<and> (\<forall>p. p \<noteq> STORAGE_STATE_PATH \<longrightarrow> nodes (clearAuthState env w) p = nodes w p)
   \<and> trace (clearAuthState env w) = trace w \<and> clock (clearAuthState env w) = clock w"
proof -
  have twice: "clearAuthState env (clearAuthState env w) = clearAuthState env w"
    by (simp add: clearAuthState_unfold)
  have swallowed: "\<forall>e. fst (clearAuthState_try env w) = Inl e \<longrightarrow> clearAuthState env w = w"
    by (auto simp: clearAuthState_def clearAuthState_try_def unlinkSync_def split: if_splits)
  have gone: "\<not> fs_fault env ExistsOp STORAGE_STATE_PATH \<and> \<not> fs_fault env UnlinkOp STORAGE_STATE_PATH
      \<longrightarrow> \<not> is_file (nodes (clearAuthState env w) STORAGE_STATE_PATH)"
    by (simp add: clearAuthState_unfold)
  have frame: "\<forall>p. p \<noteq> STORAGE_STATE_PATH \<longrightarrow> nodes (clearAuthState env w) p = nodes w p"
    by (simp add: clearAuthState_unfold)
  have rest: "trace (clearAuthState env w) = trace w \<and> clock (clearAuthState env w) = clock w"
    by (simp add: clearAuthState_unfold)
  from twice swallowed gone frame rest show ?thesis
    by simp
qed

theorem clearAuthState_idempotent_witness:
  "nodes (clearAuthState calm (written_at 0)) STORAGE_STATE_PATH = None
   \<and> clearAuthState calm (clearAuthState calm (written_at 0)) = clearAuthState calm (written_at 0)
   \<and> clearAuthState (calm\<lparr>fs_fault := \<lambda>f p. f = UnlinkOp\<rparr>) (written_at 0) = written_at 0"
  using clearAuthState_idempotent [of calm "written_at 0"]
    clearAuthState_idempotent [of "calm\<lparr>fs_fault := \<lambda>f p. f = UnlinkOp\<rparr>" "written_at 0"]
  by (simp add: clearAuthState_unfold calm_def written_at_def)

section \<open>The regeneration block and the fixtures\<close>

lemma andThen_assoc: "andThen (andThen a b) c = andThen a (andThen b c)"
  by (rule ext) (simp add: andThen_def split: prod.split sum.split)

lemma andThen_unit: "andThen m (\<lambda>w. (Inr (), w)) = m"
  by (rule ext) (simp add: andThen_def split: prod.split sum.split)

lemma setupAuthState_steps:
  "setupAuthState env = andThen (pw_all env (login_steps env)) (persist env)"
  by (simp add: setupAuthState_def login_steps_def navigateToPage_def BasePage_navigate_def
      BasePage_waitForPageLoad_def andThen_assoc andThen_unit persist_def)

lemma pw_all_result:
  "pw_all env as w =
     (case find (pw_throws env) as of
        None \<Rightarrow> (Inr (), w\<lparr>trace := trace w @ as\<rparr>)
      | Some a \<Rightarrow> (Inl (PlaywrightError a), w\<lparr>trace := trace w @ attempted env as\<rparr>))"
proof (induction as arbitrary: w)
  case Nil
  then show ?case by simp
next
  case (Cons a as)
  then show ?case
    by (simp add: andThen_def pw_def attempted_def split: option.split)
qed

lemma attempted_all: "find (pw_throws env) as = None \<Longrightarrow> attempted env as = as"
  by (simp add: attempted_def)

lemma find_throws: "(find (pw_throws env) as = None) = (\<forall>a\<in>set as. \<not> pw_throws env a)"
  by (auto simp: find_None_iff)

lemma set_attempted: "set (attempted env as) \<subseteq> set as"
proof (cases "find (pw_throws env) as")
  case None
  then show ?thesis by (simp add: attempted_def)
next
  case (Some a)
  then have "a \<in> set as"
    by (auto simp: find_Some_iff)
  with Some show ?thesis
    using set_takeWhileD by (fastforce simp: attempted_def)
qed

lemma login_count:
  "length (filter (\<lambda>a. a = Goto LoginPage_url) (attempted env (login_steps env))) = 1"
  by (simp add: attempted_def login_steps_def)

lemma ensure_authDir_trace [simp]:
  "fst (ensure_authDir env (w\<lparr>trace := t\<rparr>)) = fst (ensure_authDir env w)"
  by (simp add: ensure_authDir_def existsSync_def mkdirSync_def split: option.split node.split)

lemma ensure_authDir_effect:
  "trace (snd (ensure_authDir env w)) = trace w \<and> clock (snd (ensure_authDir env w)) = clock w
   \<and> nodes (snd (ensure_authDir env w)) STORAGE_STATE_PATH = nodes w STORAGE_STATE_PATH
   \<and> (\<forall>p. nodes (snd (ensure_authDir env w)) p = nodes w p \<or>
           (p = authDir \<and> nodes w p = None \<and> 
            nodes (snd (ensure_authDir env w)) p = Some (Directory (of_int (clock w)))))"
  by (simp add: ensure_authDir_def existsSync_def mkdirSync_def STORAGE_STATE_PATH_def authDir_def
      split: option.split node.split)

lemma storageState_ok:
  "(fst (context_storageState env p w) = Inr ()) =
     (\<not> pw_throws env (StorageState p) \<and> \<not> is_dir (nodes w p))"
  by (simp add: context_storageState_def Let_def split: option.split node.split)

lemma storageState_effect:
  "trace (snd (context_storageState env p w)) = trace w @ [StorageState p]
   \<and> clock (snd (context_storageState env p w)) = clock w
   \<and> (\<forall>q. q \<noteq> p \<longrightarrow> nodes (snd (context_storageState env p w)) q = nodes w q)
   \<and> (fst (context_storageState env p w) = Inr () \<longrightarrow>
        nodes (snd (context_storageState env p w)) p = Some (File (of_int (clock w)) (captured env)))
   \<and> (fst (context_storageState env p w) \<noteq> Inr () \<longrightarrow>
        nodes (snd (context_storageState env p w)) = nodes w)"
  by (simp add: context_storageState_def Let_def split: option.split node.split)

lemma persist_ok:
  "(fst (persist env w) = Inr ()) =
     (fst (ensure_authDir env w) = Inr () \<and> \<not> pw_throws env (StorageState STORAGE_STATE_PATH)
      \<and> \<not> is_dir (nodes w STORAGE_STATE_PATH))"
proof (cases "ensure_authDir env w")
  case (Pair r w1)
  from ensure_authDir_effect [of env w] Pair
  have "nodes w1 STORAGE_STATE_PATH = nodes w STORAGE_STATE_PATH"
    by simp
  with Pair show ?thesis
    by (cases r) (simp_all add: persist_def andThen_def storageState_ok)
qed

lemma persist_effect:
  "trace (snd (persist env w)) =
      trace w @ (if fst (ensure_authDir env w) = Inr () then [StorageState STORAGE_STATE_PATH] else [])
   \<and> clock (snd (persist env w)) = clock w
   \<and> (\<forall>p. p \<noteq> STORAGE_STATE_PATH \<longrightarrow> nodes (snd (persist env w)) p = nodes w p \<or>
           (p = authDir \<and> nodes w p = None \<and>
            nodes (snd (persist env w)) p = Some (Directory (of_int (clock w)))))
   \<and> (fst (persist env w) = Inr () \<longrightarrow> fst (ensure_authDir env w) = Inr () \<and>
        nodes (snd (persist env w)) STORAGE_STATE_PATH = Some (File (of_int (clock w)) (captured env)))
   \<and> (fst (persist env w) \<noteq> Inr () \<longrightarrow>
        nodes (snd (persist env w)) STORAGE_STATE_PATH = nodes w STORAGE_STATE_PATH)"
proof (cases "ensure_authDir env w")
  case (Pair r w1)
  note e = ensure_authDir_effect [of env w, unfolded Pair, simplified]
  show ?thesis
  proof (cases r)
    case (Inl err)
    with Pair e show ?thesis
      by (simp add: persist_def andThen_def)
  next
    case (Inr u)
    with Pair e storageState_effect [of env STORAGE_STATE_PATH w1] show ?thesis
      by (auto simp: persist_def andThen_def)
  qed
qed

lemma setupAuthState_effect:
  "trace (snd (setupAuthState env w)) =
      trace w @ attempted env (login_steps env) @
        (if find (pw_throws env) (login_steps env) = None \<and> fst (ensure_authDir env w) = Inr ()
         then [StorageState STORAGE_STATE_PATH] else [])
   \<and> clock (snd (setupAuthState env w)) = clock w
   \<and> (\<forall>p. p \<noteq> STORAGE_STATE_PATH \<longrightarrow> nodes (snd (setupAuthState env w)) p = nodes w p \<or>
           (p = authDir \<and> nodes w p = None \<and>
            nodes (snd (setupAuthState env w)) p = Some (Directory (of_int (clock w)))))
   \<and> (fst (setupAuthState env w) = Inr () \<longrightarrow>
        find (pw_throws env) (login_steps env) = None \<and> fst (ensure_authDir env w) = Inr () \<and>
        nodes (snd (setupAuthState env w)) STORAGE_STATE_PATH =
          Some (File (of_int (clock w)) (captured env)))
   \<and> (fst (setupAuthState env w) \<noteq> Inr () \<longrightarrow>
        nodes (snd (setupAuthState env w)) STORAGE_STATE_PATH = nodes w STORAGE_STATE_PATH)
   \<and> (\<forall>a. find (pw_throws env) (login_steps env) = Some a \<longrightarrow>
        fst (setupAuthState env w) = Inl (PlaywrightError a) \<and>
        nodes (snd (setupAuthState env w)) = nodes w)"
proof (cases "find (pw_throws env) (login_steps env)")
  case None
  then have run: "setupAuthState env w = persist env (w\<lparr>trace := trace w @ login_steps env\<rparr>)"
    by (simp add: setupAuthState_steps andThen_def pw_all_result)
  from None persist_effect [of env "w\<lparr>trace := trace w @ login_steps env\<rparr>"] show ?thesis
    unfolding run by (simp add: attempted_all)
next
  case (Some a)
  then have "setupAuthState env w =
      (Inl (PlaywrightError a), w\<lparr>trace := trace w @ attempted env (login_steps env)\<rparr>)"
    by (simp add: setupAuthState_steps andThen_def pw_all_result)
  with Some show ?thesis
    by simp
qed

lemma setupAuthState_ok:
  "(fst (setupAuthState env w) = Inr ()) =
     (find (pw_throws env) (login_steps env) = None \<and> fst (ensure_authDir env w) = Inr ()
      \<and> \<not> pw_throws env (StorageState STORAGE_STATE_PATH) \<and> \<not> is_dir (nodes w STORAGE_STATE_PATH))"
proof (cases "find (pw_throws env) (login_steps env)")
  case None
  then have "setupAuthState env w = persist env (w\<lparr>trace := trace w @ login_steps env\<rparr>)"
    by (simp add: setupAuthState_steps andThen_def pw_all_result)
  with None show ?thesis
    by (simp add: persist_ok)
next
  case (Some a)
  then show ?thesis
    by (simp add: setupAuthState_steps andThen_def pw_all_result)
qed

lemma regenerate_iff:
  "(\<not> existsSync env w STORAGE_STATE_PATH \<or> isAuthStateStale env w) = isAuthStateStale env w"
  by (auto simp: isAuthStateStale_unfold existsSync_def)

lemma ensureFresh_unfold:
  "ensureFresh env w =
     (if isAuthStateStale env w
      then andThen (browser_newContext env SetupContext None)
          (andThen (pw env (NewPage SetupContext))
                   (try_finally (setupAuthState env) (pw env (Close SetupContext))))
             (clearAuthState env w)
      else (Inr (), w))"
  using regenerate_iff [of env w] by (simp add: ensureFresh_def)

lemma ensureFresh_fresh: "\<not> isAuthStateStale env w \<Longrightarrow> ensureFresh env w = (Inr (), w)"
  by (simp add: ensureFresh_unfold)

lemma ensure_authDir_clear [simp]:
  "fst (ensure_authDir env (clearAuthState env w)) = fst (ensure_authDir env w)"
  by (simp add: clearAuthState_unfold ensure_authDir_def existsSync_def mkdirSync_def
      STORAGE_STATE_PATH_def authDir_def split: option.split node.split)

lemma ensureFresh_stale:
  assumes "isAuthStateStale env w"
  shows "trace (snd (ensureFresh env w)) = trace w @ setup_events env w
   \<and> clock (snd (ensureFresh env w)) = clock w
   \<and> (\<forall>p. p \<noteq> STORAGE_STATE_PATH \<longrightarrow> nodes (snd (ensureFresh env w)) p = nodes w p \<or>
           (p = authDir \<and> nodes w p = None \<and>
            nodes (snd (ensureFresh env w)) p = Some (Directory (of_int (clock w)))))
   \<and> (fst (ensureFresh env w) = Inr () \<longrightarrow>
        \<not> pw_throws env (NewContext SetupContext None) \<and> \<not> pw_throws env (NewPage SetupContext) \<and>
        find (pw_throws env) (login_steps env) = None \<and> fst (ensure_authDir env w) = Inr () \<and>
        nodes (snd (ensureFresh env w)) STORAGE_STATE_PATH =
          Some (File (of_int (clock w)) (captured env)))
   \<and> (nodes (snd (ensureFresh env w)) STORAGE_STATE_PATH =
          nodes (clearAuthState env w) STORAGE_STATE_PATH \<or>
       nodes (snd (ensureFresh env w)) STORAGE_STATE_PATH =
          Some (File (of_int (clock w)) (captured env)))
   \<and> (find (pw_throws env) (login_steps env) \<noteq> None \<longrightarrow>
        (\<exists>e. fst (ensureFresh env w) = Inl e) \<and>
        nodes (snd (ensureFresh env w)) = nodes (clearAuthState env w))
   \<and> (\<forall>a. find (pw_throws env) (login_steps env) = Some a \<and>
        \<not> pw_throws env (NewContext SetupContext None) \<and> \<not> pw_throws env (NewPage SetupContext) \<and>
        \<not> pw_throws env (Close SetupContext) \<longrightarrow>
        fst (ensureFresh env w) = Inl (PlaywrightError a))
   \<and> (fst (ensureFresh env w) = Inr ()) =
       (\<not> pw_throws env (NewContext SetupContext None) \<and> \<not> pw_throws env (NewPage SetupContext) \<and>
        find (pw_throws env) (login_steps env) = None \<and> fst (ensure_authDir env w) = Inr () \<and>
        \<not> pw_throws env (StorageState STORAGE_STATE_PATH) \<and>
        \<not> is_dir (nodes w STORAGE_STATE_PATH) \<and> \<not> pw_throws env (Close SetupContext))"
proof -
  define w1 where "w1 = clearAuthState env w"
  define w2 where "w2 = w1\<lparr>trace := trace w1 @ [NewContext SetupContext None, NewPage SetupContext]\<rparr>"
  have w1: "trace w1 = trace w" "clock w1 = clock w"
    "\<forall>p. p \<noteq> STORAGE_STATE_PATH \<longrightarrow> nodes w1 p = nodes w p"
    by (simp_all add: w1_def clearAuthState_unfold)
  have dir: "fst (ensure_authDir env w2) = fst (ensure_authDir env w)"
    by (simp add: w2_def w1_def)
  show ?thesis
  proof (cases "pw_throws env (NewContext SetupContext None) \<or> pw_throws env (NewPage SetupContext)")
    case True
    with assms w1 show ?thesis
      by (auto simp: ensureFresh_unfold andThen_def browser_newContext_def pw_def Let_def
          setup_events_def w1_def [symmetric])
  next
    case False
    obtain r w3 where s: "setupAuthState env w2 = (r, w3)"
      by (cases "setupAuthState env w2")
    from False assms have run: "ensureFresh env w =
        (if pw_throws env (Close SetupContext)
         then (Inl (PlaywrightError (Close SetupContext)), w3\<lparr>trace := trace w3 @ [Close SetupContext]\<rparr>)
         else (r, w3\<lparr>trace := trace w3 @ [Close SetupContext]\<rparr>))"
      by (simp add: ensureFresh_unfold andThen_def browser_newContext_def pw_def Let_def
          try_finally_def w1_def [symmetric] w2_def [symmetric] s)
    note e = setupAuthState_effect [of env w2, unfolded s dir, simplified]
    have w2: "trace w2 = trace w @ [NewContext SetupContext None, NewPage SetupContext]"
      "clock w2 = clock w" "nodes w2 = nodes w1"
      by (simp_all add: w2_def w1)
    have d: "is_dir (nodes w2 STORAGE_STATE_PATH) = is_dir (nodes w STORAGE_STATE_PATH)"
      by (cases "nodes w STORAGE_STATE_PATH" rule: is_file.cases)
        (simp_all add: w2 w1_def clearAuthState_unfold)
    note ok = setupAuthState_ok [of env w2, unfolded s dir d, simplified]
    from False e ok w1 w2 show ?thesis
      unfolding run by (auto simp: setup_events_def w1_def [symmetric])
  qed
qed

lemma page_fixture_effect:
  "nodes (snd (page_fixture env w)) = nodes (snd (ensureFresh env w))
   \<and> clock (snd (page_fixture env w)) = clock (snd (ensureFresh env w))
   \<and> trace (snd (page_fixture env w)) =
       trace (snd (ensureFresh env w)) @ auth_events env True (ensureFresh env w)
   \<and> (\<forall>e. fst (ensureFresh env w) = Inl e \<longrightarrow> fst (page_fixture env w) = Inl e)"
proof (cases "ensureFresh env w")
  case (Pair r w1)
  then show ?thesis
    by (cases r)
      (simp_all add: page_fixture_def andThen_def browser_newContext_def pw_def use_def
        auth_events_def Let_def)
qed

lemma authenticatedContext_fixture_effect:
  "nodes (snd (authenticatedContext_fixture env w)) = nodes (snd (ensureFresh env w))
   \<and> clock (snd (authenticatedContext_fixture env w)) = clock (snd (ensureFresh env w))
   \<and> trace (snd (authenticatedContext_fixture env w)) =
       trace (snd (ensureFresh env w)) @ auth_events env False (ensureFresh env w)
   \<and> (\<forall>e. fst (ensureFresh env w) = Inl e \<longrightarrow> fst (authenticatedContext_fixture env w) = Inl e)"
proof (cases "ensureFresh env w")
  case (Pair r w1)
  then show ?thesis
    by (cases r)
      (simp_all add: authenticatedContext_fixture_def andThen_def browser_newContext_def pw_def
        use_def auth_events_def Let_def)
qed

lemma new_events_append: "trace w' = trace w @ es \<Longrightarrow> new_events w w' = es"
  by (simp add: new_events_def)

lemma login_invocations_append:
  "trace w' = trace w @ es \<Longrightarrow>
   login_invocations w' = login_invocations w + length (filter (\<lambda>a. a = Goto LoginPage_url) es)"
  by (simp add: login_invocations_def)

lemma auth_events_no_login:
  "filter (\<lambda>a. a = Goto LoginPage_url) (auth_events env b rw) = []"
  by (simp add: auth_events_def Let_def)

lemma setup_events_count:
  "length (filter (\<lambda>a. a = Goto LoginPage_url) (setup_events env w)) =
     (if pw_throws env (NewContext SetupContext None) \<or> pw_throws env (NewPage SetupContext)
      then 0 else 1)"
  by (simp add: setup_events_def login_count)

text \<open>The parts of \<open>ensureFresh_stale\<close>, one by one.\<close>

lemmas stale_trace = ensureFresh_stale [THEN conjunct1]
lemmas stale_clock = ensureFresh_stale [THEN conjunct2, THEN conjunct1]
lemmas stale_frame = ensureFresh_stale [THEN conjunct2, THEN conjunct2, THEN conjunct1]
lemmas stale_written = ensureFresh_stale [THEN conjunct2, THEN conjunct2, THEN conjunct2, THEN conjunct1]
lemmas stale_path = ensureFresh_stale [THEN conjunct2, THEN conjunct2, THEN conjunct2, THEN conjunct2, THEN conjunct1]
lemmas stale_throws = ensureFresh_stale [THEN conjunct2, THEN conjunct2, THEN conjunct2, THEN conjunct2, THEN conjunct2, THEN conjunct1]
lemmas stale_error = ensureFresh_stale [THEN conjunct2, THEN conjunct2, THEN conjunct2, THEN conjunct2, THEN conjunct2, THEN conjunct2, THEN conjunct1]
lemmas stale_ok = ensureFresh_stale [THEN conjunct2, THEN conjunct2, THEN conjunct2, THEN conjunct2, THEN conjunct2, THEN conjunct2, THEN conjunct2]

text \<open>
  C4. When the persisted state is fresh (the staleness check answers \<open>false\<close>: by C1 the
  path is readable, something exists there and its age is at most the maximum), the
  regeneration block does nothing at all: it returns normally and the world (files,
  directories, log) is the one it started from. Either fixture then leaves every file as
  it was and its log holds no further visit of the login page, so the login procedure is
  entered zero times.
\<close>

theorem fresh_state_reused:
  assumes "\<not> isAuthStateStale env w"
  shows "ensureFresh env w = (Inr (), w)
    \<and> nodes (snd (page_fixture env w)) = nodes w
    \<and> login_invocations (snd (page_fixture env w)) = login_invocations w
    \<and> nodes (snd (authenticatedContext_fixture env w)) = nodes w
    \<and> login_invocations (snd (authenticatedContext_fixture env w)) = login_invocations w"
proof -
  have e: "ensureFresh env w = (Inr (), w)"
    using assms by (rule ensureFresh_fresh)
  have p: "trace (snd (page_fixture env w)) = trace w @ auth_events env True (Inr (), w)"
    "nodes (snd (page_fixture env w)) = nodes w"
    using page_fixture_effect [of env w] by (simp_all add: e)
  have a: "trace (snd (authenticatedContext_fixture env w)) = trace w @ auth_events env False (Inr (), w)"
    "nodes (snd (authenticatedContext_fixture env w)) = nodes w"
    using authenticatedContext_fixture_effect [of env w] by (simp_all add: e)
  from e p a show ?thesis
    by (simp add: login_invocations_append auth_events_no_login)
qed

theorem fresh_state_reused_witness:
  "\<not> isAuthStateStale calm (written_at 1400000)
   \<and> ensureFresh calm (written_at 1400000) = (Inr (), written_at 1400000)
   \<and> nodes (snd (page_fixture calm (written_at 1400000))) = nodes (written_at 1400000)
   \<and> login_invocations (snd (page_fixture calm (written_at 1400000))) = 0"
proof -
  have h: "\<not> isAuthStateStale calm (written_at 1400000)"
    by (simp add: isAuthStateStale_unfold calm_def written_at_def AUTH_STATE_MAX_AGE_MS_def)
  have "login_invocations (written_at 1400000) = 0"
    by (simp add: login_invocations_def written_at_def)
  with h fresh_state_reused [OF h] show ?thesis
    by simp
qed

text \<open>Unfolding everything, to evaluate a run on a sample environment and world.\<close>

lemmas run_defs = page_fixture_def authenticatedContext_fixture_def ensureFresh_def
  setupAuthState_def andThen_def try_finally_def pw_def browser_newContext_def
  context_storageState_def use_def navigateToPage_def BasePage_navigate_def
  BasePage_waitForPageLoad_def ensure_authDir_def existsSync_def mkdirSync_def unlinkSync_def
  statSync_def clearAuthState_def clearAuthState_try_def isAuthStateStale_def
  isAuthStateStale_try_def STORAGE_STATE_PATH_def authDir_def or_empty_def Date_now_def
  AUTH_STATE_MAX_AGE_MS_def LoginPage_url_def inputLogin_def inputPassword_def btnLogin_def
  swagLabs_def login_invocations_def new_events_def login_steps_def loginWithCredentials_def

text \<open>
  C3. When the persisted state is absent or stale (or cannot be read), the regeneration
  block enters the login procedure at most once, and exactly once as soon as the setup
  context and its page open. It returns normally exactly when every awaited call of it
  resolves and the state can be written; then the login procedure was entered exactly
  once, the file at the state path is the captured state stamped with the present time,
  and, unless reading that path fails, \<open>isAuthStateStale\<close> is false right away and at
  every instant up to \<open>AUTH_STATE_MAX_AGE_MS\<close> later.
\<close>

theorem stale_state_regenerated:
  assumes "isAuthStateStale env w"
  shows "login_invocations (snd (ensureFresh env w)) \<le> login_invocations w + 1
    \<and> (\<not> pw_throws env (NewContext SetupContext None) \<and> \<not> pw_throws env (NewPage SetupContext)
         \<longrightarrow> login_invocations (snd (ensureFresh env w)) = login_invocations w + 1)
    \<and> (fst (ensureFresh env w) = Inr ()) =
        (\<not> pw_throws env (NewContext SetupContext None) \<and> \<not> pw_throws env (NewPage SetupContext) \<and>
         (\<forall>a\<in>set (login_steps env). \<not> pw_throws env a) \<and> fst (ensure_authDir env w) = Inr () \<and>
         \<not> pw_throws env (StorageState STORAGE_STATE_PATH) \<and>
         \<not> is_dir (nodes w STORAGE_STATE_PATH) \<and> \<not> pw_throws env (Close SetupContext))
    \<and> (fst (ensureFresh env w) = Inr () \<longrightarrow>
         login_invocations (snd (ensureFresh env w)) = login_invocations w + 1 \<and>
         nodes (snd (ensureFresh env w)) STORAGE_STATE_PATH =
           Some (File (of_int (clock w)) (captured env)) \<and>
         (\<not> fs_fault env ExistsOp STORAGE_STATE_PATH \<and> \<not> fs_fault env StatOp STORAGE_STATE_PATH \<longrightarrow>
            \<not> isAuthStateStale env (snd (ensureFresh env w)) \<and>
            (\<forall>t. clock w \<le> t \<and> t \<le> clock w + AUTH_STATE_MAX_AGE_MS \<longrightarrow>
                 \<not> isAuthStateStale env ((snd (ensureFresh env w))\<lparr>clock := t\<rparr>))))"
    (is "?le \<and> ?once \<and> ?ok \<and> ?post")
proof -
  note tr = stale_trace [OF assms]
  have n: "login_invocations (snd (ensureFresh env w)) =
      login_invocations w +
      (if pw_throws env (NewContext SetupContext None) \<or> pw_throws env (NewPage SetupContext)
       then 0 else 1)"
    by (simp add: login_invocations_append [OF tr] setup_events_count)
  have le: ?le
    by (simp add: n)
  have once: ?once
    by (simp add: n)
  have ok: ?ok
    by (simp only: stale_ok [OF assms] find_throws)
  have post: ?post
  proof (intro impI conjI allI)
    assume r: "fst (ensureFresh env w) = Inr ()"
    with ok show "login_invocations (snd (ensureFresh env w)) = login_invocations w + 1"
      by (simp add: n)
    from r stale_written [OF assms]
    show written: "nodes (snd (ensureFresh env w)) STORAGE_STATE_PATH =
        Some (File (of_int (clock w)) (captured env))"
      by simp
    assume f: "\<not> fs_fault env ExistsOp STORAGE_STATE_PATH \<and> \<not> fs_fault env StatOp STORAGE_STATE_PATH"
    from f written stale_clock [OF assms] show "\<not> isAuthStateStale env (snd (ensureFresh env w))"
      by (simp add: isAuthStateStale_unfold AUTH_STATE_MAX_AGE_MS_def)
    fix t
    assume "clock w \<le> t \<and> t \<le> clock w + AUTH_STATE_MAX_AGE_MS"
    with f written show "\<not> isAuthStateStale env ((snd (ensureFresh env w))\<lparr>clock := t\<rparr>)"
      by (simp add: isAuthStateStale_unfold)
  qed
  from le once ok post show ?thesis
    by (intro conjI)
qed

theorem stale_state_regenerated_witness:
  "isAuthStateStale calm (written_at 0)
   \<and> fst (ensureFresh calm (written_at 0)) = Inr ()
   \<and> login_invocations (snd (ensureFresh calm (written_at 0))) = 1
   \<and> nodes (snd (ensureFresh calm (written_at 0))) STORAGE_STATE_PATH = Some (File 5000000 ''{}'')
   \<and> \<not> isAuthStateStale calm (snd (ensureFresh calm (written_at 0)))
   \<and> \<not> isAuthStateStale calm ((snd (ensureFresh calm (written_at 0)))\<lparr>clock := 8600000\<rparr>)"
proof -
  have h: "isAuthStateStale calm (written_at 0)"
    by (simp add: isAuthStateStale_unfold calm_def written_at_def AUTH_STATE_MAX_AGE_MS_def)
  have ok: "fst (ensureFresh calm (written_at 0)) = Inr ()"
    by (simp add: run_defs calm_def written_at_def)
  have z: "login_invocations (written_at 0) = 0" "clock (written_at 0) = 5000000"
    "captured calm = ''{}''" "\<not> fs_fault calm ExistsOp STORAGE_STATE_PATH"
    "\<not> fs_fault calm StatOp STORAGE_STATE_PATH"
    by (simp_all add: login_invocations_def written_at_def calm_def)
  from stale_state_regenerated [OF h] ok z have
    "login_invocations (snd (ensureFresh calm (written_at 0))) = 1
     \<and> nodes (snd (ensureFresh calm (written_at 0))) STORAGE_STATE_PATH = Some (File 5000000 ''{}'')
     \<and> \<not> isAuthStateStale calm (snd (ensureFresh calm (written_at 0)))
     \<and> (\<forall>t. 5000000 \<le> t \<and> t \<le> 5000000 + AUTH_STATE_MAX_AGE_MS \<longrightarrow>
          \<not> isAuthStateStale calm ((snd (ensureFresh calm (written_at 0)))\<lparr>clock := t\<rparr>))"
    by simp
  with h ok show ?thesis
    by (simp add: AUTH_STATE_MAX_AGE_MS_def)
qed

lemma fixture_effect:
  assumes "fx \<in> {page_fixture, authenticatedContext_fixture}"
  shows "nodes (snd (fx env w)) = nodes (snd (ensureFresh env w))"
    and "\<exists>b. trace (snd (fx env w)) =
           trace (snd (ensureFresh env w)) @ auth_events env b (ensureFresh env w)"
    and "fst (ensureFresh env w) = Inl e \<Longrightarrow> fst (fx env w) = Inl e"
  using assms page_fixture_effect [of env w] authenticatedContext_fixture_effect [of env w]
  by auto

lemma not_login_step:
  "StorageState p \<notin> set (login_steps env)" "NewContext c st \<notin> set (login_steps env)"
  "Use out \<notin> set (login_steps env)" "Close c \<notin> set (login_steps env)"
  "NewPage c \<notin> set (login_steps env)"
  by (simp_all add: login_steps_def)

lemma not_attempted:
  "a \<notin> set (login_steps env) \<Longrightarrow> a \<notin> set (attempted env (login_steps env))"
  using set_attempted [of env "login_steps env"] by blast

lemma attempted_login:
  "\<exists>rest. attempted env (login_steps env) = Goto LoginPage_url # rest"
  by (simp add: attempted_def login_steps_def)

lemma setup_events_throws:
  assumes "find (pw_throws env) (login_steps env) \<noteq> None"
  shows "StorageState p \<notin> set (setup_events env w)"
    and "NewContext AuthContext st \<notin> set (setup_events env w)"
    and "Use out \<notin> set (setup_events env w)"
  using assms by (simp_all add: setup_events_def not_attempted not_login_step)

lemma setup_events_no_use: "Use out \<notin> set (setup_events env w)"
  by (simp add: setup_events_def not_attempted not_login_step)

text \<open>
  C5. When the state is stale and one of the awaited calls of the login procedure
  (navigate, wait, fill, fill, click, wait) rejects, each fixture rejects too: with that
  call's error when the setup context opened and closes cleanly. No state is written:
  the files are those \<open>clearAuthState\<close> left, so the old file is gone whenever the unlink
  did not fail; \<open>storageState\<close> is never called, no context is created from the state
  file and the test body never receives a page or context.
\<close>

theorem login_failure_propagates:
  assumes "isAuthStateStale env w" and "\<exists>a\<in>set (login_steps env). pw_throws env a"
    and "fx \<in> {page_fixture, authenticatedContext_fixture}"
  shows "(\<exists>e. fst (fx env w) = Inl e)
    \<and> (\<forall>a. find (pw_throws env) (login_steps env) = Some a \<and>
            \<not> pw_throws env (NewContext SetupContext None) \<and>
            \<not> pw_throws env (NewPage SetupContext) \<and> \<not> pw_throws env (Close SetupContext)
            \<longrightarrow> fst (fx env w) = Inl (PlaywrightError a))
    \<and> nodes (snd (fx env w)) = nodes (clearAuthState env w)
    \<and> (\<not> fs_fault env ExistsOp STORAGE_STATE_PATH \<and> \<not> fs_fault env UnlinkOp STORAGE_STATE_PATH
          \<longrightarrow> \<not> is_file (nodes (snd (fx env w)) STORAGE_STATE_PATH))
    \<and> StorageState STORAGE_STATE_PATH \<notin> set (new_events w (snd (fx env w)))
    \<and> NewContext AuthContext (Some STORAGE_STATE_PATH) \<notin> set (new_events w (snd (fx env w)))
    \<and> Use (test_body env) \<notin> set (new_events w (snd (fx env w)))"
    (is "?err \<and> ?which \<and> ?nodes \<and> ?gone \<and> ?nowrite \<and> ?noctx \<and> ?nouse")
proof -
  from assms(2) have thr: "find (pw_throws env) (login_steps env) \<noteq> None"
    by (simp add: find_throws)
  from stale_throws [OF assms(1)] thr obtain e where e: "fst (ensureFresh env w) = Inl e"
    and n: "nodes (snd (ensureFresh env w)) = nodes (clearAuthState env w)"
    by blast
  have err: ?err
    using fixture_effect(3) [OF assms(3) e] by blast
  have which: ?which
    using stale_error [OF assms(1)] fixture_effect(3) [OF assms(3)] by blast
  have nodes: ?nodes
    using fixture_effect(1) [OF assms(3)] n by simp
  have gone: ?gone
    by (simp add: nodes clearAuthState_unfold)
  from fixture_effect(2) [OF assms(3), of env w] e
  have "trace (snd (fx env w)) = trace (snd (ensureFresh env w))"
    by (auto simp: auth_events_def)
  then have ev: "new_events w (snd (fx env w)) = setup_events env w"
    by (simp add: new_events_append stale_trace [OF assms(1)])
  from err which nodes gone setup_events_throws [OF thr] show ?thesis
    unfolding ev by (intro conjI)
qed

theorem login_failure_propagates_witness:
  "isAuthStateStale click_rejects (written_at 0)
   \<and> fst (page_fixture click_rejects (written_at 0)) = Inl (PlaywrightError (Click btnLogin))
   \<and> nodes (snd (page_fixture click_rejects (written_at 0))) STORAGE_STATE_PATH = None
   \<and> Use Passed \<notin> set (new_events (written_at 0) (snd (page_fixture click_rejects (written_at 0))))"
proof -
  have h: "isAuthStateStale click_rejects (written_at 0)"
    by (simp add: isAuthStateStale_unfold click_rejects_def calm_def written_at_def
        AUTH_STATE_MAX_AGE_MS_def)
  have t: "\<exists>a\<in>set (login_steps click_rejects). pw_throws click_rejects a"
    by (simp add: login_steps_def click_rejects_def calm_def)
  have f: "find (pw_throws click_rejects) (login_steps click_rejects) = Some (Click btnLogin)"
    by (simp add: login_steps_def click_rejects_def calm_def btnLogin_def inputLogin_def
        inputPassword_def)
  have c: "\<not> pw_throws click_rejects (NewContext SetupContext None)"
    "\<not> pw_throws click_rejects (NewPage SetupContext)"
    "\<not> pw_throws click_rejects (Close SetupContext)"
    "\<not> fs_fault click_rejects ExistsOp STORAGE_STATE_PATH"
    "\<not> fs_fault click_rejects UnlinkOp STORAGE_STATE_PATH"
    "test_body click_rejects = Passed"
    by (simp_all add: click_rejects_def calm_def)
  have n: "nodes (clearAuthState click_rejects (written_at 0)) STORAGE_STATE_PATH = None"
    by (simp add: clearAuthState_unfold c written_at_def)
  from login_failure_propagates [OF h t, of page_fixture] f c n h show ?thesis
    by simp
qed

text \<open>
  What the fixtures do close. In every run of either fixture, whatever rejects and
  whatever the test body does: \<open>context.close()\<close> is called exactly when the value was
  handed to \<open>use\<close>, and then it is the last call of the run; \<open>setupContext.close()\<close> is
  called exactly when the login procedure was started, and after it.
\<close>

lemma close_exactly_when_reached:
  assumes "fx \<in> {page_fixture, authenticatedContext_fixture}"
  shows "(Close AuthContext \<in> set (new_events w (snd (fx env w))) \<longleftrightarrow>
           Use (test_body env) \<in> set (new_events w (snd (fx env w))))
    \<and> (Use (test_body env) \<in> set (new_events w (snd (fx env w))) \<longrightarrow>
           (\<exists>xs. new_events w (snd (fx env w)) = xs @ [Use (test_body env), Close AuthContext]))
    \<and> (Close SetupContext \<in> set (new_events w (snd (fx env w))) \<longleftrightarrow>
           Goto LoginPage_url \<in> set (new_events w (snd (fx env w))))
    \<and> (Goto LoginPage_url \<in> set (new_events w (snd (fx env w))) \<longrightarrow>
           (\<exists>xs ys. new_events w (snd (fx env w)) = xs @ Goto LoginPage_url # ys \<and>
                    Close SetupContext \<in> set ys))"
    (is "?auth \<and> ?last \<and> ?started \<and> ?after")
proof -
  define pre where "pre = (if isAuthStateStale env w then setup_events env w else [])"
  have t: "trace (snd (ensureFresh env w)) = trace w @ pre"
    by (cases "isAuthStateStale env w") (simp_all add: pre_def stale_trace ensureFresh_fresh)
  from fixture_effect(2) [OF assms, of env w] obtain b
    where "trace (snd (fx env w)) = trace (snd (ensureFresh env w)) @ auth_events env b (ensureFresh env w)"
    by blast
  then have ev: "new_events w (snd (fx env w)) = pre @ auth_events env b (ensureFresh env w)"
    by (simp add: new_events_append t)
  have no_use: "Use (test_body env) \<notin> set pre"
    by (simp add: pre_def setup_events_no_use)
  have no_close: "Close AuthContext \<notin> set pre"
    by (simp add: pre_def setup_events_def not_attempted not_login_step)
  have both: "Close AuthContext \<in> set (auth_events env b (ensureFresh env w)) \<longleftrightarrow>
      Use (test_body env) \<in> set (auth_events env b (ensureFresh env w))"
    by (simp add: auth_events_def Let_def)
  have used: "\<exists>xs. pre @ auth_events env b (ensureFresh env w) = xs @ [Use (test_body env), Close AuthContext]"
    if "Use (test_body env) \<in> set (auth_events env b (ensureFresh env w))"
  proof -
    from that obtain zs where "auth_events env b (ensureFresh env w) = zs @ [Use (test_body env), Close AuthContext]"
      by (auto simp: auth_events_def Let_def split: if_splits)
    then have "pre @ auth_events env b (ensureFresh env w) = (pre @ zs) @ [Use (test_body env), Close AuthContext]"
      by simp
    then show ?thesis ..
  qed
  have login: "\<exists>xs ys. pre @ auth_events env b (ensureFresh env w) = xs @ Goto LoginPage_url # ys \<and>
                    Close SetupContext \<in> set ys"
    if g: "Goto LoginPage_url \<in> set pre"
  proof -
    from g have st: "isAuthStateStale env w" 
      and c: "\<not> pw_throws env (NewContext SetupContext None)" "\<not> pw_throws env (NewPage SetupContext)"
      by (auto simp: pre_def setup_events_def split: if_splits)
    obtain rest where r: "attempted env (login_steps env) = Goto LoginPage_url # rest"
      using attempted_login by blast
    from st c r obtain tl where "pre = [NewContext SetupContext None, NewPage SetupContext] @
        Goto LoginPage_url # (rest @ tl @ [Close SetupContext])"
      by (simp add: pre_def setup_events_def)
    then have "pre @ auth_events env b (ensureFresh env w) =
        [NewContext SetupContext None, NewPage SetupContext] @
        Goto LoginPage_url # (rest @ tl @ [Close SetupContext] @ auth_events env b (ensureFresh env w))"
      by simp
    moreover have "Close SetupContext \<in> set (rest @ tl @ [Close SetupContext] @ auth_events env b (ensureFresh env w))"
      by simp
    ultimately show ?thesis by blast
  qed
  have no_goto: "Goto LoginPage_url \<notin> set (auth_events env b (ensureFresh env w))"
    "Close SetupContext \<notin> set (auth_events env b (ensureFresh env w))"
    by (simp_all add: auth_events_def Let_def)
  have started: "Close SetupContext \<in> set pre \<longleftrightarrow> Goto LoginPage_url \<in> set pre"
  proof
    assume "Close SetupContext \<in> set pre"
    then have "isAuthStateStale env w \<and> \<not> pw_throws env (NewContext SetupContext None) \<and>
        \<not> pw_throws env (NewPage SetupContext)"
      by (auto simp: pre_def setup_events_def split: if_splits)
    moreover obtain rest where "attempted env (login_steps env) = Goto LoginPage_url # rest"
      using attempted_login by blast
    ultimately show "Goto LoginPage_url \<in> set pre"
      by (simp add: pre_def setup_events_def)
  next
    assume "Goto LoginPage_url \<in> set pre"
    then show "Close SetupContext \<in> set pre"
      by (auto simp: pre_def setup_events_def split: if_splits)
  qed
  have c1: ?auth
    unfolding ev using no_use no_close both by simp
  have c2: ?last
    unfolding ev using used no_use by auto
  have c3: ?started
    unfolding ev using started no_goto by simp
  have c4: ?after
    unfolding ev using login no_goto by auto
  from c1 c2 c3 c4 show ?thesis
    by (intro conjI)
qed

text \<open>
  C6. A fixture does not close every context it opened. With a fresh state file, when
  \<open>browser.newContext({ storageState })\<close> resolves and \<open>context.newPage()\<close> rejects, the
  \<open>page\<close> fixture rejects having made those two calls only: \<open>context.close()\<close> is never
  called. With no state file, when \<open>browser.newContext()\<close> resolves and
  \<open>setupContext.newPage()\<close> rejects, both fixtures reject without a call of
  \<open>setupContext.close()\<close>: in each fixture \<open>newPage()\<close> stands outside the \<open>try\<close> whose
  \<open>finally\<close> closes.
\<close>

theorem context_left_open:
  "fst (browser_newContext (newPage_rejects AuthContext) AuthContext (Some STORAGE_STATE_PATH)
          (written_at 1400000)) = Inr ()
   \<and> fst (page_fixture (newPage_rejects AuthContext) (written_at 1400000)) =
       Inl (PlaywrightError (NewPage AuthContext))
   \<and> trace (snd (page_fixture (newPage_rejects AuthContext) (written_at 1400000))) =
       [NewContext AuthContext (Some STORAGE_STATE_PATH), NewPage AuthContext]
   \<and> Close AuthContext \<notin>
       set (trace (snd (page_fixture (newPage_rejects AuthContext) (written_at 1400000))))
   \<and> fst (browser_newContext (newPage_rejects SetupContext) SetupContext None blank) = Inr ()
   \<and> fst (page_fixture (newPage_rejects SetupContext) blank) =
       Inl (PlaywrightError (NewPage SetupContext))
   \<and> trace (snd (page_fixture (newPage_rejects SetupContext) blank)) =
       [NewContext SetupContext None, NewPage SetupContext]
   \<and> fst (authenticatedContext_fixture (newPage_rejects SetupContext) blank) =
       Inl (PlaywrightError (NewPage SetupContext))
   \<and> trace (snd (authenticatedContext_fixture (newPage_rejects SetupContext) blank)) =
       [NewContext SetupContext None, NewPage SetupContext]
   \<and> Close SetupContext \<notin>
       set (trace (snd (page_fixture (newPage_rejects SetupContext) blank)))"
  by (simp add: run_defs newPage_rejects_def calm_def blank_def written_at_def)

text \<open>
  C8. In every run of either fixture the only file that can differ afterwards is the one
  at \<open>STORAGE_STATE_PATH\<close> (besides, the directory \<open>.auth\<close> may have been created). That
  path then holds what it held before, or nothing, or exactly the captured state stamped
  with the present time: a completed regeneration replaces the content whole, whatever
  was there. \<open>clearAuthState\<close> either changes nothing or removes that one file.
\<close>

theorem single_state_file:
  assumes "fx \<in> {page_fixture, authenticatedContext_fixture}"
  shows "(\<forall>p. p \<noteq> STORAGE_STATE_PATH \<longrightarrow> nodes (snd (fx env w)) p = nodes w p \<or>
            (p = authDir \<and> nodes w p = None \<and>
             nodes (snd (fx env w)) p = Some (Directory (of_int (clock w)))))
    \<and> (nodes (snd (fx env w)) STORAGE_STATE_PATH = nodes w STORAGE_STATE_PATH \<or>
        nodes (snd (fx env w)) STORAGE_STATE_PATH = None \<or>
        nodes (snd (fx env w)) STORAGE_STATE_PATH = Some (File (of_int (clock w)) (captured env)))
    \<and> (isAuthStateStale env w \<and> fst (ensureFresh env w) = Inr () \<longrightarrow>
        nodes (snd (fx env w)) STORAGE_STATE_PATH = Some (File (of_int (clock w)) (captured env)))
    \<and> (nodes (clearAuthState env w) = nodes w \<or>
        nodes (clearAuthState env w) = (nodes w)(STORAGE_STATE_PATH := None))"
    (is "?frame \<and> ?path \<and> ?replace \<and> ?clear")
proof -
  note n = fixture_effect(1) [OF assms, of env w]
  have clear: ?clear
    by (simp add: clearAuthState_unfold)
  show ?thesis
  proof (cases "isAuthStateStale env w")
    case True
    have frame: ?frame
      unfolding n by (rule stale_frame [OF True])
    have "nodes (clearAuthState env w) STORAGE_STATE_PATH = nodes w STORAGE_STATE_PATH \<or>
        nodes (clearAuthState env w) STORAGE_STATE_PATH = None"
      by (simp add: clearAuthState_unfold)
    with stale_path [OF True] have path: ?path
      unfolding n by auto
    have replace: ?replace
      unfolding n using stale_written [OF True] by simp
    from frame path replace clear show ?thesis
      by (intro conjI)
  next
    case False
    then have "nodes (snd (fx env w)) = nodes w"
      by (simp add: n ensureFresh_fresh)
    with False clear show ?thesis
      by simp
  qed
qed

theorem single_state_file_witness:
  "nodes (snd (page_fixture calm (written_at 0))) STORAGE_STATE_PATH = Some (File 5000000 ''{}'')
   \<and> nodes (snd (page_fixture calm (written_at 0))) ''playwright.config.ts'' = None
   \<and> nodes (clearAuthState calm (written_at 0)) = (nodes (written_at 0))(STORAGE_STATE_PATH := None)"
proof -
  have h: "isAuthStateStale calm (written_at 0)"
    by (simp add: isAuthStateStale_unfold calm_def written_at_def AUTH_STATE_MAX_AGE_MS_def)
  have ok: "fst (ensureFresh calm (written_at 0)) = Inr ()"
    by (simp add: run_defs calm_def written_at_def)
  have z: "clock (written_at 0) = 5000000" "captured calm = ''{}''"
    "''playwright.config.ts'' \<noteq> STORAGE_STATE_PATH" "''playwright.config.ts'' \<noteq> authDir"
    "nodes (written_at 0) ''playwright.config.ts'' = None"
    "nodes (clearAuthState calm (written_at 0)) \<noteq> nodes (written_at 0)"
    by (simp_all add: written_at_def calm_def STORAGE_STATE_PATH_def authDir_def
        clearAuthState_unfold fun_eq_iff)
  from single_state_file [of page_fixture calm "written_at 0"] h ok z show ?thesis
    by auto
qed

text \<open>
  C2. With \<open>TEST_USER_ADMIN_USERNAME\<close> and \<open>TEST_USER_ADMIN_PASSWORD\<close> unset and no state
  file, the \<open>page\<close> fixture does not raise: it opens the login page, fills both fields with
  the empty string, clicks the login button, writes the state file and hands a page to
  the test. \<open>LoginPage.loginWithCredentials\<close>, on the same environment, throws before any
  browser call.
\<close>

theorem blank_credentials_submitted:
  "process_env calm ''TEST_USER_ADMIN_USERNAME'' = None
   \<and> process_env calm ''TEST_USER_ADMIN_PASSWORD'' = None
   \<and> fst (page_fixture calm blank) = Inr ()
   \<and> trace (snd (page_fixture calm blank)) =
       [NewContext SetupContext None, NewPage SetupContext, Goto LoginPage_url,
        WaitForLoadState DomContentLoaded, Fill inputLogin [], Fill inputPassword [],
        Click btnLogin, WaitForLoadState NetworkIdle, StorageState STORAGE_STATE_PATH,
        Close SetupContext, NewContext AuthContext (Some STORAGE_STATE_PATH),
        NewPage AuthContext, Use Passed, Close AuthContext]
   \<and> nodes (snd (page_fixture calm blank)) STORAGE_STATE_PATH = Some (File 5000000 ''{}'')
   \<and> loginWithCredentials calm blank =
       (Inl (Error ''Credentials not found in environment variables''), blank)"
  by (simp add: run_defs calm_def blank_def)

section \<open>The retry helpers: results\<close>

lemma fillWithRetry_loop_exhausts:
  assumes "\<forall>j. i \<le> j \<and> int j < retries \<longrightarrow>
             fill_rejects pg j = None \<and>
             (\<exists>cur. inputValue_result pg j = Inr cur \<and> cur \<noteq> v)"
  shows "fillWithRetry_loop pg selector v retries i hist =
           (Inr (), hist @ concat (replicate (nat (retries - int i))
                                    [PageFill selector v 5000, PageInputValue selector]))"
  using assms
proof (induction pg selector v retries i hist rule: fillWithRetry_loop.induct)
  case (1 pg selector v retries i hist)
  show ?case
  proof (cases "int i < retries")
    case False
    then show ?thesis
      by (simp add: fillWithRetry_loop.simps [of pg selector v retries i hist])
  next
    case True
    with "1.prems" obtain cur where ok: "fill_rejects pg i = None"
      "inputValue_result pg i = Inr cur" "cur \<noteq> v"
      by blast
    then have t: "fillWithRetry_try pg selector v i =
        (FellThrough, [PageFill selector v 5000, PageInputValue selector])"
      by (simp add: fillWithRetry_try_def)
    have next_ok: "\<forall>j. Suc i \<le> j \<and> int j < retries \<longrightarrow>
             fill_rejects pg j = None \<and> (\<exists>cur. inputValue_result pg j = Inr cur \<and> cur \<noteq> v)"
      using "1.prems" by auto
    have n: "nat (retries - int i) = Suc (nat (retries - int (Suc i)))"
      using True by auto
    from "1.IH"(2) [OF True refl t [symmetric] refl next_ok]
    have "fillWithRetry_loop pg selector v retries (Suc i) (hist @ [PageFill selector v 5000, PageInputValue selector]) =
        (Inr (), (hist @ [PageFill selector v 5000, PageInputValue selector]) @
           concat (replicate (nat (retries - int (Suc i))) [PageFill selector v 5000, PageInputValue selector]))"
      by simp
    with True t n show ?thesis
      by (simp add: fillWithRetry_loop.simps [of pg selector v retries i hist])
  qed
qed

text \<open>
  C9. In every run of \<open>fillWithRetry\<close> in which each of the \<open>retries\<close> calls of
  \<open>page.fill\<close> resolves and each read-back differs from the requested value, the function
  returns normally: it made exactly \<open>retries\<close> fill and read-back calls, never waited,
  and raised nothing, although the field never held the value.
\<close>

theorem fillWithRetry_silent_failure:
  assumes "\<forall>i. int i < retries \<longrightarrow>
             fill_rejects pg i = None \<and>
             (\<exists>cur. inputValue_result pg i = Inr cur \<and> cur \<noteq> v)"
  shows "fillWithRetry pg selector v (Some retries) =
           (Inr (), concat (replicate (nat retries)
                              [PageFill selector v 5000, PageInputValue selector]))"
proof -
  from assms have "\<forall>j. 0 \<le> j \<and> int j < retries \<longrightarrow>
      fill_rejects pg j = None \<and> (\<exists>cur. inputValue_result pg j = Inr cur \<and> cur \<noteq> v)"
    by simp
  from fillWithRetry_loop_exhausts [OF this, of selector "[]"] show ?thesis
    by (simp add: fillWithRetry_def)
qed

theorem fillWithRetry_silent_failure_witness:
  "inputValue_result never_set 0 \<noteq> Inr ''alice''
   \<and> inputValue_result never_set 1 \<noteq> Inr ''alice''
   \<and> inputValue_result never_set 2 \<noteq> Inr ''alice''
   \<and> fillWithRetry never_set ''#user'' ''alice'' (Some 3) =
       (Inr (), [PageFill ''#user'' ''alice'' 5000, PageInputValue ''#user'',
                 PageFill ''#user'' ''alice'' 5000, PageInputValue ''#user'',
                 PageFill ''#user'' ''alice'' 5000, PageInputValue ''#user''])"
proof -
  have h: "\<forall>i. int i < 3 \<longrightarrow> fill_rejects never_set i = None \<and>
      (\<exists>cur. inputValue_result never_set i = Inr cur \<and> cur \<noteq> ''alice'')"
    by (simp add: never_set_def)
  from fillWithRetry_silent_failure [OF h, of "''#user''"] show ?thesis
    by (simp add: numeral_3_eq_3 never_set_def)
qed

lemma retryUntil_loop_stop:
  "\<not> int i < m \<Longrightarrow>
   retryUntil_loop sc m d i hist = (Inl (ConditionNotMet (not_met_message sc m)), hist)"
  by (simp add: retryUntil_loop.simps [of sc m d i hist])

lemma retryUntil_loop_unmet:
  "int i < m \<Longrightarrow> unmet sc i \<Longrightarrow>
   retryUntil_loop sc m d i hist = retryUntil_loop sc m d (Suc i) (hist @ attempt_log m d i)"
  by (simp add: retryUntil_loop.simps [of sc m d i hist] unmet_def attempt_log_def)

lemma retryUntil_loop_met:
  "int i < m \<Longrightarrow> action_rejects sc i = None \<Longrightarrow> condition_result sc i = Inr True \<Longrightarrow>
   retryUntil_loop sc m d i hist = (Inr (), hist @ [ActionCall, ConditionCall])"
  by (simp add: retryUntil_loop.simps [of sc m d i hist])

lemma retryUntil_loop_other:
  "int i < m \<Longrightarrow> \<not> unmet sc i \<Longrightarrow>
   \<forall>msg. fst (retryUntil_loop sc m d i hist) \<noteq> Inl (ConditionNotMet msg)"
  by (auto simp: retryUntil_loop.simps [of sc m d i hist] unmet_def
      split: option.split sum.split)

lemma retryUntil_loop_exhausts:
  "\<forall>j. i \<le> j \<and> int j < m \<longrightarrow> unmet sc j \<Longrightarrow>
   retryUntil_loop sc m d i hist =
     (Inl (ConditionNotMet (not_met_message sc m)),
      hist @ concat (map (attempt_log m d) [i..<nat m]))"
proof (induction "nat m - i" arbitrary: i hist)
  case 0
  then have "\<not> int i < m"
    by linarith
  moreover from this have "[i..<nat m] = []"
    by simp
  ultimately show ?case
    by (simp add: retryUntil_loop_stop)
next
  case (Suc n)
  then have lt: "int i < m"
    by linarith
  then have u: "[i..<nat m] = i # [Suc i..<nat m]"
    by (simp add: upt_conv_Cons)
  from Suc.prems lt have "unmet sc i"
    by simp
  moreover have "retryUntil_loop sc m d (Suc i) (hist @ attempt_log m d i) =
      (Inl (ConditionNotMet (not_met_message sc m)),
       (hist @ attempt_log m d i) @ concat (map (attempt_log m d) [Suc i..<nat m]))"
    using Suc.hyps(2) Suc.prems by (intro Suc.hyps(1)) auto
  ultimately show ?case
    using lt by (simp add: retryUntil_loop_unmet u)
qed

lemma retryUntil_loop_not_met_only_if:
  "fst (retryUntil_loop sc m d i hist) = Inl (ConditionNotMet msg) \<Longrightarrow>
   i \<le> j \<Longrightarrow> int j < m \<Longrightarrow> unmet sc j"
proof (induction "j - i" arbitrary: i hist)
  case 0
  then have "j = i"
    by simp
  with 0 retryUntil_loop_other [of i m sc d hist] show ?case
    by blast
next
  case (Suc n)
  then have lt: "int i < m" "Suc i \<le> j"
    by linarith+
  with Suc.prems retryUntil_loop_other [of i m sc d hist] have u: "unmet sc i"
    by blast
  with Suc.prems lt have "fst (retryUntil_loop sc m d (Suc i) (hist @ attempt_log m d i)) =
      Inl (ConditionNotMet msg)"
    by (simp add: retryUntil_loop_unmet)
  with Suc.hyps lt Suc.prems show ?case
    by (intro Suc.hyps(1) [of "Suc i" "hist @ attempt_log m d i"]) auto
qed

lemma retryUntil_loop_first_met:
  "i \<le> k \<Longrightarrow> int k < m \<Longrightarrow> \<forall>j. i \<le> j \<and> j < k \<longrightarrow> unmet sc j \<Longrightarrow>
   action_rejects sc k = None \<Longrightarrow> condition_result sc k = Inr True \<Longrightarrow>
   retryUntil_loop sc m d i hist =
     (Inr (), hist @ concat (replicate (k - i) [ActionCall, ConditionCall, Delay d]) @
              [ActionCall, ConditionCall])"
proof (induction "k - i" arbitrary: i hist)
  case 0
  then have "i = k"
    by simp
  with 0 show ?case
    by (simp add: retryUntil_loop_met)
next
  case (Suc n)
  then have lt: "i < k" "int i < m - 1" "int i < m"
    by linarith+
  then have a: "attempt_log m d i = [ActionCall, ConditionCall, Delay d]"
    by (simp add: attempt_log_def)
  from lt have r: "k - i = Suc (k - Suc i)"
    by simp
  from Suc.prems lt have "unmet sc i"
    by simp
  moreover have "retryUntil_loop sc m d (Suc i) (hist @ attempt_log m d i) =
     (Inr (), (hist @ attempt_log m d i) @
              concat (replicate (k - Suc i) [ActionCall, ConditionCall, Delay d]) @
              [ActionCall, ConditionCall])"
    using Suc.hyps(2) Suc.prems lt by (intro Suc.hyps(1)) auto
  ultimately show ?case
    using lt by (simp add: retryUntil_loop_unmet a r)
qed

lemma attempts_exhausted:
  "0 < n \<Longrightarrow> concat (map (attempt_log (int n) d) [0..<n]) =
     concat (replicate (n - 1) [ActionCall, ConditionCall, Delay d]) @ [ActionCall, ConditionCall]"
proof -
  assume "0 < n"
  then obtain k where n: "n = Suc k"
    by (cases n) auto
  have "map (attempt_log (int (Suc k)) d) [0..<k] =
      map (\<lambda>i. [ActionCall, ConditionCall, Delay d]) [0..<k]"
    by (rule map_cong) (simp_all add: attempt_log_def)
  then have "map (attempt_log (int (Suc k)) d) [0..<k] =
      replicate k [ActionCall, ConditionCall, Delay d]"
    by (simp add: map_replicate_const)
  then show ?thesis
    by (simp add: n attempt_log_def)
qed

text \<open>
  C10. \<open>retryUntil\<close> throws its own error, with the message
  \<open>Condition not met after N retries\<close> (\<open>N\<close> being \<open>maxRetries\<close> as JavaScript renders
  it), exactly when each of the \<open>maxRetries\<close> attempts ran its action and found the
  condition false. For \<open>maxRetries \<le> 0\<close> it throws at once and
  calls neither action nor condition. After \<open>maxRetries > 0\<close> unmet attempts it has called
  the action and the condition \<open>maxRetries\<close> times each, one after the other, with a delay
  between attempts. When attempt \<open>k\<close> is the first to find the condition true it returns
  right there, after \<open>k + 1\<close> calls of the action and of the condition.
\<close>

theorem retryUntil_spec:
  "(fst (retryUntil sc (Some m) (Some d)) = Inl (ConditionNotMet (not_met_message sc m))
      \<longleftrightarrow> (\<forall>i. int i < m \<longrightarrow> unmet sc i))
   \<and> (\<forall>msg. fst (retryUntil sc (Some m) (Some d)) = Inl (ConditionNotMet msg)
        \<longrightarrow> msg = not_met_message sc m)
   \<and> (m \<le> 0 \<longrightarrow>
        retryUntil sc (Some m) (Some d) = (Inl (ConditionNotMet (not_met_message sc m)), []))
   \<and> (0 < m \<and> (\<forall>i. int i < m \<longrightarrow> unmet sc i) \<longrightarrow>
        snd (retryUntil sc (Some m) (Some d)) =
          concat (replicate (nat m - 1) [ActionCall, ConditionCall, Delay d]) @
          [ActionCall, ConditionCall])
   \<and> (\<forall>k. int k < m \<and> (\<forall>i<k. unmet sc i) \<and>
            action_rejects sc k = None \<and> condition_result sc k = Inr True
        \<longrightarrow> retryUntil sc (Some m) (Some d) =
              (Inr (), concat (replicate k [ActionCall, ConditionCall, Delay d]) @
                       [ActionCall, ConditionCall]))"
    (is "?iff \<and> ?msg \<and> ?none \<and> ?all \<and> ?first")
proof -
  have run: "retryUntil sc (Some m) (Some d) = retryUntil_loop sc m d 0 []"
    by (simp add: retryUntil_def)
  have exhausted: "retryUntil_loop sc m d 0 [] =
      (Inl (ConditionNotMet (not_met_message sc m)), concat (map (attempt_log m d) [0..<nat m]))"
    if "\<forall>i. int i < m \<longrightarrow> unmet sc i"
    using retryUntil_loop_exhausts [of 0 m sc d "[]"] that by simp
  have iff: ?iff
    unfolding run
    using exhausted retryUntil_loop_not_met_only_if [of sc m d 0 "[]" "not_met_message sc m"]
    by auto
  have msg: ?msg
  proof (intro allI impI)
    fix msg
    assume a: "fst (retryUntil sc (Some m) (Some d)) = Inl (ConditionNotMet msg)"
    then have "\<forall>i. int i < m \<longrightarrow> unmet sc i"
      unfolding run using retryUntil_loop_not_met_only_if [of sc m d 0 "[]" msg] by auto
    from exhausted [OF this] a show "msg = not_met_message sc m"
      by (simp add: run)
  qed
  have none: ?none
    by (simp add: run retryUntil_loop_stop)
  have all: ?all
  proof (intro impI)
    assume a: "0 < m \<and> (\<forall>i. int i < m \<longrightarrow> unmet sc i)"
    then have "int (nat m) = m" "0 < nat m"
      by simp_all
    with attempts_exhausted [of "nat m" d] exhausted a show
      "snd (retryUntil sc (Some m) (Some d)) =
          concat (replicate (nat m - 1) [ActionCall, ConditionCall, Delay d]) @
          [ActionCall, ConditionCall]"
      by (simp add: run)
  qed
  have first: ?first
    unfolding run using retryUntil_loop_first_met [of 0 _ m sc d "[]"] by simp
  from iff msg none all first show ?thesis
    by (intro conjI)
qed

theorem retryUntil_spec_witness:
  "retryUntil (met_at 1) (Some 5) (Some 1000) =
     (Inr (), [ActionCall, ConditionCall, Delay 1000, ActionCall, ConditionCall])
   \<and> retryUntil (met_at 7) (Some 3) (Some 20) =
     (Inl (ConditionNotMet ''Condition not met after 3 retries''),
      [ActionCall, ConditionCall, Delay 20, ActionCall, ConditionCall, Delay 20,
       ActionCall, ConditionCall])
   \<and> retryUntil (met_at 7) (Some (- 12)) (Some 20) =
     (Inl (ConditionNotMet ''Condition not met after -12 retries''), [])"
proof -
  have u: "\<forall>i. int i < 3 \<longrightarrow> unmet (met_at 7) i"
    by (auto simp: unmet_def met_at_def)
  have v: "int 1 < 5 \<and> (\<forall>i<1. unmet (met_at 1) i) \<and>
      action_rejects (met_at 1) 1 = None \<and> condition_result (met_at 1) 1 = Inr True"
    by (auto simp: unmet_def met_at_def)
  have m: "not_met_message (met_at 7) 3 = ''Condition not met after 3 retries''"
    "not_met_message (met_at 7) (- 12) = ''Condition not met after -12 retries''"
    by code_simp+
  note exhausted = retryUntil_spec [of "met_at 7" 3 20]
  note met = retryUntil_spec [of "met_at 1" 5 1000]
  note never = retryUntil_spec [of "met_at 7" "- 12" 20]
  from exhausted [THEN conjunct1] u
  have a: "fst (retryUntil (met_at 7) (Some 3) (Some 20)) =
      Inl (ConditionNotMet (not_met_message (met_at 7) 3))"
    by blast
  have "(0::int) < 3"
    by simp
  with exhausted [THEN conjunct2, THEN conjunct2, THEN conjunct2, THEN conjunct1] u
  have b: "snd (retryUntil (met_at 7) (Some 3) (Some 20)) =
      concat (replicate (nat 3 - 1) [ActionCall, ConditionCall, Delay 20]) @
      [ActionCall, ConditionCall]"
    by blast
  from met [THEN conjunct2, THEN conjunct2, THEN conjunct2, THEN conjunct2] v
  have c: "retryUntil (met_at 1) (Some 5) (Some 1000) =
      (Inr (), concat (replicate 1 [ActionCall, ConditionCall, Delay 1000]) @
               [ActionCall, ConditionCall])"
    by blast
  have "(- 12::int) \<le> 0"
    by simp
  with never [THEN conjunct2, THEN conjunct2, THEN conjunct1]
  have d: "retryUntil (met_at 7) (Some (- 12)) (Some 20) =
      (Inl (ConditionNotMet (not_met_message (met_at 7) (- 12))), [])"
    by blast
  from a b have "retryUntil (met_at 7) (Some 3) (Some 20) =
     (Inl (ConditionNotMet ''Condition not met after 3 retries''),
      [ActionCall, ConditionCall, Delay 20, ActionCall, ConditionCall, Delay 20,
       ActionCall, ConditionCall])"
    by (simp add: prod_eq_iff m numeral_2_eq_2)
  with c d show ?thesis
    by (simp add: m)
qed

end
